theory Spec2Isabelle
  imports Main "HOL-Library.Word"
begin

section \<open>The miniaudio wrapper: memory, faults and observable calls\<close>

text \<open>
  The wrapper \<^verbatim>\<open>miniaudio_wrapper.c\<close> is C code over a heap and a handful of file-scope
  variables. A pointer is an optional address (\<open>None\<close> is \<^verbatim>\<open>NULL\<close>); a function pointer is
  an optional identifier of the foreign function. Calls into foreign code (log sinks, the
  enumeration visitor, the playback callback) are recorded, in order and with their
  arguments, in a trace, and so is the release of a native device. Undefined behaviour of
  the C program is a fault value.
\<close>

type_synonym addr = nat
type_synonym ptr = "addr option"
type_synonym fnptr = "nat option"
type_synonym ma_device_id = "8 word list"

datatype fault = NullDereference | NullCall | UseAfterFree | BadPointer

text \<open>\<^verbatim>\<open>ma_device_info\<close>, as far as the wrapper reads it: \<^verbatim>\<open>id\<close>, \<^verbatim>\<open>name\<close>, \<^verbatim>\<open>isDefault\<close>.\<close>

record ma_device_info =
  info_id :: ma_device_id
  info_name :: string
  isDefault :: "32 word"

text \<open>\<^verbatim>\<open>struct device_info\<close> of the header: two owned pointers and a flag byte.\<close>

record device_info =
  name :: ptr
  is_platform_default :: "8 word"
  id_blob :: ptr

text \<open>\<^verbatim>\<open>struct device_options\<close> and \<^verbatim>\<open>struct device_config\<close> of the header.\<close>

record device_options =
  opt_device_id :: ptr
  opt_channels :: "32 word"
  opt_sr :: "32 word"

record device_config =
  sr :: "32 word"
  channels :: "32 word"

text \<open>
  The native \<^verbatim>\<open>ma_device\<close>, as far as the wrapper reads it (\<^verbatim>\<open>pUserData\<close>,
  \<^verbatim>\<open>playback.channels\<close>, \<^verbatim>\<open>sampleRate\<close>), together with the state the backend keeps
  inside it: open and not streaming, started, stopped, or released.
\<close>

datatype lifecycle = Open | Started | Stopped | Destroyed

record ma_device =
  pUserData :: ptr
  playback_channels :: "32 word"
  sampleRate :: "32 word"
  dev_state :: lifecycle

datatype ma_format = ma_format_unknown | ma_format_f32

record ma_device_config =
  cfg_channels :: "32 word"
  cfg_format :: ma_format
  cfg_sampleRate :: "32 word"
  cfg_dataCallback_is_data_proc :: bool
  cfg_pDeviceID :: ptr
  cfg_pUserData :: ptr

text \<open>\<^verbatim>\<open>struct wrapped_device\<close>.\<close>

record wrapped_device =
  device :: ma_device
  callback :: fnptr
  rust_userdata :: ptr
  config :: device_config

text \<open>
  What a heap block holds: a string made by \<^verbatim>\<open>strdup\<close>, a copied device identifier, a
  \<^verbatim>\<open>wrapped_device\<close> of which only \<^verbatim>\<open>rust_userdata\<close> and \<^verbatim>\<open>callback\<close> have been written,
  a complete \<^verbatim>\<open>wrapped_device\<close>, or nothing yet.
\<close>

datatype obj =
    Uninit
  | NameBlock string
  | IdBlock ma_device_id
  | PartialDevice fnptr ptr
  | DeviceBlock wrapped_device

text \<open>
  A pointer to the \<^verbatim>\<open>config\<close> member of a \<^verbatim>\<open>wrapped_device\<close>: \<open>ConfigOf p\<close> is
  \<^verbatim>\<open>&p->config\<close>. Forming it reads no memory.
\<close>

datatype config_ptr = ConfigOf ptr

text \<open>
  The foreign calls the wrapper makes, with their arguments: a log sink with the message;
  the enumeration visitor with the \<^verbatim>\<open>device_info\<close> it is handed and the user data; the
  playback callback with the output buffer, the buffer length, the pointer to the
  configuration and the user data. The release of a native device by \<^verbatim>\<open>ma_device_uninit\<close>
  happens in the backend, outside the memory of the wrapper, and is recorded as well, with
  the address of the device and the state it was in.
\<close>

datatype event =
    LogCall nat string
  | VisitorCall nat device_info ptr
  | PlaybackCall nat ptr "64 word" config_ptr ptr
  | DeviceUninit addr lifecycle

text \<open>The file-scope \<^verbatim>\<open>log_callbacks\<close> struct.\<close>

record log_callbacks_t =
  error :: fnptr
  warn :: fnptr
  info :: fnptr
  debug :: fnptr

text \<open>
  The whole state: the file-scope variables, the heap as an association list from live
  addresses to blocks, the outcomes of the coming allocation requests (\<open>True\<close>: the
  request succeeds; once the list is used up every request succeeds), and the trace.
\<close>

record world =
  log_callbacks :: log_callbacks_t
  logger_initialised :: bool
  logger_callback_registered :: bool
  context_initialised :: bool
  heap :: "(addr \<times> obj) list"
  alloc_outcomes :: "bool list"
  trace :: "event list"

subsection \<open>The allocator\<close>

definition fresh :: "(addr \<times> obj) list \<Rightarrow> addr" where
  "fresh h = Suc (fold max (map fst h) 0)"

definition alloc :: "obj \<Rightarrow> world \<Rightarrow> ptr \<times> world" where
  "alloc b st =
     (case alloc_outcomes st of
        [] \<Rightarrow> (Some (fresh (heap st)), st\<lparr>heap := (fresh (heap st), b) # heap st\<rparr>)
      | ok # rest \<Rightarrow>
          if ok then (Some (fresh (heap st)),
                      st\<lparr>heap := (fresh (heap st), b) # heap st, alloc_outcomes := rest\<rparr>)
          else (None, st\<lparr>alloc_outcomes := rest\<rparr>))"

definition malloc :: "world \<Rightarrow> ptr \<times> world" where
  "malloc st = alloc Uninit st"

definition strdup :: "string \<Rightarrow> world \<Rightarrow> ptr \<times> world" where
  "strdup s st = alloc (NameBlock s) st"

text \<open>\<^verbatim>\<open>free(NULL)\<close> does nothing; freeing an address that is not live is a fault.\<close>

definition free :: "ptr \<Rightarrow> world \<Rightarrow> fault + world" where
  "free p st =
     (case p of
        None \<Rightarrow> Inr st
      | Some a \<Rightarrow>
          (case map_of (heap st) a of
             None \<Rightarrow> Inl UseAfterFree
           | Some b \<Rightarrow> Inr (st\<lparr>heap := filter (\<lambda>kv. fst kv \<noteq> a) (heap st)\<rparr>)))"

text \<open>A write through a pointer.\<close>

definition store :: "ptr \<Rightarrow> obj \<Rightarrow> world \<Rightarrow> fault + world" where
  "store p b st =
     (case p of
        None \<Rightarrow> Inl NullDereference
      | Some a \<Rightarrow>
          (case map_of (heap st) a of
             None \<Rightarrow> Inl UseAfterFree
           | Some old \<Rightarrow> Inr (st\<lparr>heap := (a, b) # filter (\<lambda>kv. fst kv \<noteq> a) (heap st)\<rparr>)))"

definition live :: "world \<Rightarrow> addr set" where
  "live st = fst ` set (heap st)"

section \<open>Logging bridge\<close>

text \<open>
  Modelled from the spec: \<^verbatim>\<open>miniaudio.h\<close> is not part of the sources, so the four level
  constants \<^verbatim>\<open>MA_LOG_LEVEL_*\<close> are missing. The spec names four distinct severities
  (Debug, Info, Warning, Error); they are given miniaudio's numbers here.
\<close>

definition MA_LOG_LEVEL_DEBUG :: "32 word" where "MA_LOG_LEVEL_DEBUG = 4"
definition MA_LOG_LEVEL_INFO :: "32 word" where "MA_LOG_LEVEL_INFO = 3"
definition MA_LOG_LEVEL_WARNING :: "32 word" where "MA_LOG_LEVEL_WARNING = 2"
definition MA_LOG_LEVEL_ERROR :: "32 word" where "MA_LOG_LEVEL_ERROR = 1"

text \<open>A call through a \<^verbatim>\<open>log_callback_t *\<close>: a null function pointer cannot be called.\<close>

definition call_log :: "fnptr \<Rightarrow> string \<Rightarrow> world \<Rightarrow> fault + world" where
  "call_log f message st =
     (case f of
        None \<Rightarrow> Inl NullCall
      | Some g \<Rightarrow> Inr (st\<lparr>trace := trace st @ [LogCall g message]\<rparr>))"

text \<open>
  \<^verbatim>\<open>log_callback\<close>: the four expansions of the \<^verbatim>\<open>LVL\<close> macro in the order of the source,
  then the unconditional call of the error sink.
\<close>

definition log_callback :: "ptr \<Rightarrow> 32 word \<Rightarrow> string \<Rightarrow> world \<Rightarrow> fault + world" where
  "log_callback userdata level message st =
     (if level = MA_LOG_LEVEL_DEBUG \<and> debug (log_callbacks st) \<noteq> None
        then call_log (debug (log_callbacks st)) message st
      else if level = MA_LOG_LEVEL_INFO \<and> info (log_callbacks st) \<noteq> None
        then call_log (info (log_callbacks st)) message st
      else if level = MA_LOG_LEVEL_WARNING \<and> warn (log_callbacks st) \<noteq> None
        then call_log (warn (log_callbacks st)) message st
      else if level = MA_LOG_LEVEL_ERROR \<and> error (log_callbacks st) \<noteq> None
        then call_log (error (log_callbacks st)) message st
      else call_log (error (log_callbacks st)) message st)"

text \<open>
  \<^verbatim>\<open>init_logging\<close>. The two native calls \<^verbatim>\<open>ma_log_init\<close> and
  \<^verbatim>\<open>ma_log_register_callback\<close> are foreign: whether each succeeds is an argument
  (\<open>log_init_ok\<close>, \<open>register_ok\<close>). The result is the returned \<^verbatim>\<open>uint8_t\<close> and the state.
\<close>

definition init_logging ::
  "fnptr \<Rightarrow> fnptr \<Rightarrow> fnptr \<Rightarrow> fnptr \<Rightarrow> bool \<Rightarrow> bool \<Rightarrow> world \<Rightarrow> 8 word \<times> world" where
  "init_logging err_callback warn_callback info_callback debug_callback log_init_ok register_ok st =
     (let st1 = st\<lparr>log_callbacks :=
                     \<lparr>error = err_callback, warn = warn_callback,
                      info = info_callback, debug = debug_callback\<rparr>\<rparr>
      in if \<not> log_init_ok then (0, st1)
         else let st2 = st1\<lparr>logger_initialised := True\<rparr>
              in if \<not> register_ok then (0, st2)
                 else (1, st2\<lparr>logger_callback_registered := True\<rparr>))"

text \<open>The state of a process that has not called the wrapper yet.\<close>

definition initial_world :: "bool list \<Rightarrow> world" where
  "initial_world outcomes =
     \<lparr>log_callbacks = \<lparr>error = None, warn = None, info = None, debug = None\<rparr>,
      logger_initialised = False, logger_callback_registered = False,
      context_initialised = False, heap = [], alloc_outcomes = outcomes, trace = []\<rparr>"

section \<open>Backend context\<close>

text \<open>\<^verbatim>\<open>init_context\<close>; whether the native \<^verbatim>\<open>ma_context_init\<close> succeeds is an argument.\<close>

definition init_context :: "bool \<Rightarrow> world \<Rightarrow> 8 word \<times> world" where
  "init_context context_init_ok st =
     (if \<not> context_init_ok then (0, st) else (1, st\<lparr>context_initialised := True\<rparr>))"

section \<open>Device enumerator\<close>

text \<open>\<^verbatim>\<open>device_info_deinit\<close>: nothing on a null \<^verbatim>\<open>info\<close>, otherwise two calls of \<^verbatim>\<open>free\<close>.\<close>

definition device_info_deinit :: "device_info option \<Rightarrow> world \<Rightarrow> fault + world" where
  "device_info_deinit info_p st =
     (case info_p of
        None \<Rightarrow> Inr st
      | Some di \<Rightarrow>
          (case free (name di) st of
             Inl e \<Rightarrow> Inl e
           | Inr st1 \<Rightarrow> free (id_blob di) st1))"

text \<open>A call through the \<^verbatim>\<open>device_enumeration_callback_t *\<close>.\<close>

definition call_visitor :: "fnptr \<Rightarrow> device_info \<Rightarrow> ptr \<Rightarrow> world \<Rightarrow> fault + world" where
  "call_visitor f di userdata st =
     (case f of
        None \<Rightarrow> Inl NullCall
      | Some g \<Rightarrow> Inr (st\<lparr>trace := trace st @ [VisitorCall g di userdata]\<rparr>))"

text \<open>
  The \<^verbatim>\<open>for\<close> loop of \<^verbatim>\<open>enumerate_output_devices\<close> over \<^verbatim>\<open>playback[0 .. playback_count)\<close>,
  as a recursion over the devices still to visit. Each \<^verbatim>\<open>return 1\<close> of the body ends the
  recursion (\<open>cb\<close> is the parameter \<^verbatim>\<open>callback\<close>); the \<^verbatim>\<open>is_platform_default\<close> byte is the 32-bit \<^verbatim>\<open>isDefault\<close> converted to
  \<^verbatim>\<open>uint8_t\<close>.
\<close>

fun enumerate_loop ::
  "fnptr \<Rightarrow> ptr \<Rightarrow> ma_device_info list \<Rightarrow> world \<Rightarrow> fault + (8 word \<times> world)" where
  "enumerate_loop cb userdata [] st = Inr (1, st)"
| "enumerate_loop cb userdata (p # rest) st =
     (case strdup (info_name p) st of
        (None, st1) \<Rightarrow> Inr (1, st1)
      | (Some n, st1) \<Rightarrow>
          (case malloc st1 of
             (None, st2) \<Rightarrow>
               (case free (Some n) st2 of
                  Inl e \<Rightarrow> Inl e
                | Inr st3 \<Rightarrow> Inr (1, st3))
           | (Some i, st2) \<Rightarrow>
               (case store (Some i) (IdBlock (info_id p)) st2 of
                  Inl e \<Rightarrow> Inl e
                | Inr st3 \<Rightarrow>
                    (case call_visitor cb
                            \<lparr>name = Some n, is_platform_default = ucast (isDefault p),
                             id_blob = Some i\<rparr> userdata st3 of
                       Inl e \<Rightarrow> Inl e
                     | Inr st4 \<Rightarrow> enumerate_loop cb userdata rest st4))))"

text \<open>
  \<^verbatim>\<open>enumerate_output_devices\<close>. The native query \<^verbatim>\<open>ma_context_get_devices\<close> is foreign:
  its answer is an argument, \<open>None\<close> when it does not return \<^verbatim>\<open>MA_SUCCESS\<close> and the
  playback devices in the reported order otherwise.
\<close>

definition enumerate_output_devices ::
  "fnptr \<Rightarrow> ptr \<Rightarrow> ma_device_info list option \<Rightarrow> world \<Rightarrow> fault + (8 word \<times> world)" where
  "enumerate_output_devices cb userdata get_devices st =
     (case get_devices of
        None \<Rightarrow> Inr (0, st)
      | Some playback \<Rightarrow> enumerate_loop cb userdata playback st)"

section \<open>Playback device\<close>

text \<open>
  Modelled from the spec: \<^verbatim>\<open>miniaudio.h\<close> is not part of the sources, so the native
  \<^verbatim>\<open>ma_device_init\<close>, \<^verbatim>\<open>ma_device_start\<close> and \<^verbatim>\<open>ma_device_stop\<close> are missing. By the spec the
  backend either fails to construct the device or negotiates a channel count and a sample
  rate (\<open>negotiate\<close> is that answer) and yields a device that is not started; the device
  keeps the user-data pointer of its configuration. Starting and stopping change the
  streaming state when the native call succeeds and nothing when it fails.
\<close>

definition ma_device_init ::
  "(ma_device_config \<Rightarrow> (32 word \<times> 32 word) option) \<Rightarrow> ma_device_config \<Rightarrow> ma_device option" where
  "ma_device_init negotiate cfg =
     (case negotiate cfg of
        None \<Rightarrow> None
      | Some (ch, rate) \<Rightarrow>
          Some \<lparr>pUserData = cfg_pUserData cfg, playback_channels = ch,
                sampleRate = rate, dev_state = Open\<rparr>)"

definition ma_device_start :: "bool \<Rightarrow> ma_device \<Rightarrow> bool \<times> ma_device" where
  "ma_device_start ok d = (if ok then (True, d\<lparr>dev_state := Started\<rparr>) else (False, d))"

definition ma_device_stop :: "bool \<Rightarrow> ma_device \<Rightarrow> bool \<times> ma_device" where
  "ma_device_stop ok d = (if ok then (True, d\<lparr>dev_state := Stopped\<rparr>) else (False, d))"

text \<open>
  Reading the \<^verbatim>\<open>wrapped_device\<close> behind a \<^verbatim>\<open>void *\<close>: a null pointer, a pointer to freed
  memory and a pointer to a block that holds no complete device are faults.
\<close>

definition load_device :: "ptr \<Rightarrow> world \<Rightarrow> fault + (addr \<times> wrapped_device)" where
  "load_device p st =
     (case p of
        None \<Rightarrow> Inl NullDereference
      | Some a \<Rightarrow>
          (case map_of (heap st) a of
             None \<Rightarrow> Inl UseAfterFree
           | Some (DeviceBlock w) \<Rightarrow> Inr (a, w)
           | Some other \<Rightarrow> Inl BadPointer))"


text \<open>
  \<^verbatim>\<open>playback_device_open\<close>. \<^verbatim>\<open>options\<close> is a pointer to a caller-owned struct (\<open>None\<close>:
  null). The result of \<^verbatim>\<open>malloc\<close> is written through without a check.
\<close>

definition playback_device_open ::
  "(ma_device_config \<Rightarrow> (32 word \<times> 32 word) option) \<Rightarrow> device_options option \<Rightarrow> fnptr \<Rightarrow> ptr
     \<Rightarrow> world \<Rightarrow> fault + (ptr \<times> world)" where
  "playback_device_open negotiate options cb userdata st =
     (case options of
        None \<Rightarrow> Inl NullDereference
      | Some opts \<Rightarrow>
          (case malloc st of
             (device_p, st1) \<Rightarrow>
               (case store device_p (PartialDevice cb userdata) st1 of
                  Inl e \<Rightarrow> Inl e
                | Inr st2 \<Rightarrow>
                    (case ma_device_init negotiate
                            \<lparr>cfg_channels = opt_channels opts, cfg_format = ma_format_f32,
                             cfg_sampleRate = opt_sr opts, cfg_dataCallback_is_data_proc = True,
                             cfg_pDeviceID = opt_device_id opts, cfg_pUserData = device_p\<rparr> of
                       None \<Rightarrow>
                         (case free device_p st2 of
                            Inl e \<Rightarrow> Inl e
                          | Inr st3 \<Rightarrow> Inr (None, st3))
                     | Some d \<Rightarrow>
                         (case store device_p
                                 (DeviceBlock
                                    \<lparr>device = d, callback = cb, rust_userdata = userdata,
                                     config = \<lparr>sr = sampleRate d,
                                               channels = playback_channels d\<rparr>\<rparr>) st2 of
                            Inl e \<Rightarrow> Inl e
                          | Inr st3 \<Rightarrow> Inr (device_p, st3))))))"

text \<open>
  Modelled from the spec: the native \<^verbatim>\<open>ma_device_uninit\<close> is missing with \<^verbatim>\<open>miniaudio.h\<close>.
  By the spec, destroying releases the native device, implicitly stopping it if it is still
  started, and leaves it in the terminal state. The call works on the device behind the
  pointer it is given, so a null or dangling pointer is a fault; it leaves the embedded
  device in the state \<open>Destroyed\<close> and the release is recorded in the trace.
\<close>

definition ma_device_uninit :: "ptr \<Rightarrow> world \<Rightarrow> fault + world" where
  "ma_device_uninit device_p st =
     (case load_device device_p st of
        Inl e \<Rightarrow> Inl e
      | Inr (a, w) \<Rightarrow>
          (case store (Some a)
                  (DeviceBlock (w\<lparr>device := (device w)\<lparr>dev_state := Destroyed\<rparr>\<rparr>)) st of
             Inl e \<Rightarrow> Inl e
           | Inr st1 \<Rightarrow>
               Inr (st1\<lparr>trace := trace st1 @ [DeviceUninit a (dev_state (device w))]\<rparr>)))"

text \<open>
  \<^verbatim>\<open>playback_device_destroy\<close>: the null check, then \<^verbatim>\<open>ma_device_uninit\<close> on the embedded
  device, then \<^verbatim>\<open>free\<close> of the wrapper.
\<close>

definition playback_device_destroy :: "ptr \<Rightarrow> world \<Rightarrow> fault + world" where
  "playback_device_destroy device_v st =
     (case device_v of
        None \<Rightarrow> Inr st
      | Some a \<Rightarrow>
          (case ma_device_uninit (Some a) st of
             Inl e \<Rightarrow> Inl e
           | Inr st1 \<Rightarrow> free (Some a) st1))"

text \<open>\<^verbatim>\<open>playback_device_get_config\<close> returns \<^verbatim>\<open>&device->config\<close> and touches nothing.\<close>

definition playback_device_get_config :: "ptr \<Rightarrow> world \<Rightarrow> config_ptr \<times> world" where
  "playback_device_get_config device_v st = (ConfigOf device_v, st)"


text \<open>
  \<^verbatim>\<open>playback_device_stop\<close> and \<^verbatim>\<open>playback_device_start\<close>: the native call on the embedded
  device, whose outcome (\<open>ok\<close>) is an argument, compared with \<^verbatim>\<open>MA_SUCCESS\<close>.
\<close>

definition playback_device_stop :: "bool \<Rightarrow> ptr \<Rightarrow> world \<Rightarrow> fault + (8 word \<times> world)" where
  "playback_device_stop ok device_v st =
     (case load_device device_v st of
        Inl e \<Rightarrow> Inl e
      | Inr (a, w) \<Rightarrow>
          (case ma_device_stop ok (device w) of
             (r, d) \<Rightarrow>
               (case store (Some a) (DeviceBlock (w\<lparr>device := d\<rparr>)) st of
                  Inl e \<Rightarrow> Inl e
                | Inr st1 \<Rightarrow> Inr (if r then 1 else 0, st1))))"

definition playback_device_start :: "bool \<Rightarrow> ptr \<Rightarrow> world \<Rightarrow> fault + (8 word \<times> world)" where
  "playback_device_start ok device_v st =
     (case load_device device_v st of
        Inl e \<Rightarrow> Inl e
      | Inr (a, w) \<Rightarrow>
          (case ma_device_start ok (device w) of
             (r, d) \<Rightarrow>
               (case store (Some a) (DeviceBlock (w\<lparr>device := d\<rparr>)) st of
                  Inl e \<Rightarrow> Inl e
                | Inr st1 \<Rightarrow> Inr (if r then 1 else 0, st1))))"

section \<open>What an enumeration leaves behind\<close>

text \<open>
  Vocabulary for the properties of the enumerator. \<open>delivered st f userdata p e\<close>: the
  event \<open>e\<close> is a call of the visitor \<open>f\<close> with \<open>userdata\<close> and a descriptor of the
  native device \<open>p\<close> whose name and identifier pointers address, in the heap of \<open>st\<close>, live
  blocks holding copies of the name and the identifier of \<open>p\<close>. \<open>event_blocks e\<close>: the
  addresses a visitor call was handed. \<open>enumerated f userdata st st' ds evs\<close>: from \<open>st\<close> to
  \<open>st'\<close> the trace grew by the events \<open>evs\<close>, one per device of \<open>ds\<close> and in that order,
  and the live addresses grew by exactly the blocks handed to the visitor, all of them new.
  \<open>visited f userdata p st\<close>: the state after one pass through the loop body in which both
  allocations succeed.
\<close>

definition delivered :: "world \<Rightarrow> nat \<Rightarrow> ptr \<Rightarrow> ma_device_info \<Rightarrow> event \<Rightarrow> bool" where
  "delivered st f userdata p e =
     (case e of
        VisitorCall g di u \<Rightarrow>
          g = f \<and> u = userdata \<and> is_platform_default di = ucast (isDefault p)
          \<and> (case name di of
               None \<Rightarrow> False
             | Some n \<Rightarrow> map_of (heap st) n = Some (NameBlock (info_name p)))
          \<and> (case id_blob di of
               None \<Rightarrow> False
             | Some i \<Rightarrow> map_of (heap st) i = Some (IdBlock (info_id p)))
      | LogCall g m \<Rightarrow> False
      | PlaybackCall g out len c u \<Rightarrow> False
      | DeviceUninit a s \<Rightarrow> False)"

fun event_blocks :: "event \<Rightarrow> addr set" where
  "event_blocks (VisitorCall g di u) = set_option (name di) \<union> set_option (id_blob di)"
| "event_blocks (LogCall g m) = {}"
| "event_blocks (PlaybackCall g out len c u) = {}"
| "event_blocks (DeviceUninit a s) = {}"

definition enumerated ::
  "nat \<Rightarrow> ptr \<Rightarrow> world \<Rightarrow> world \<Rightarrow> ma_device_info list \<Rightarrow> event list \<Rightarrow> bool" where
  "enumerated f userdata st st' ds evs =
     (trace st' = trace st @ evs
      \<and> list_all2 (delivered st' f userdata) ds evs
      \<and> live st' = live st \<union> \<Union> (event_blocks ` set evs)
      \<and> live st \<inter> \<Union> (event_blocks ` set evs) = {})"

definition visited :: "nat \<Rightarrow> ptr \<Rightarrow> ma_device_info \<Rightarrow> world \<Rightarrow> world" where
  "visited f userdata p st =
     st\<lparr>heap := (fresh ((fresh (heap st), NameBlock (info_name p)) # heap st), IdBlock (info_id p))
                 # (fresh (heap st), NameBlock (info_name p)) # heap st,
        alloc_outcomes := drop 2 (alloc_outcomes st),
        trace := trace st @
          [VisitorCall f \<lparr>name = Some (fresh (heap st)),
                          is_platform_default = ucast (isDefault p),
                          id_blob = Some (fresh ((fresh (heap st), NameBlock (info_name p)) # heap st))\<rparr>
             userdata]\<rparr>"

section \<open>Driving an open device\<close>

text \<open>
  The calls a client may make on an open device between opening and destroying it, and a
  sequence of them run in order on one handle. The flag of \<open>Start\<close> and \<open>Stop\<close> says
  whether the native call succeeds.
\<close>

datatype control_call = GetConfig | Start bool | Stop bool

fun control :: "ptr \<Rightarrow> control_call list \<Rightarrow> world \<Rightarrow> fault + world" where
  "control device_v [] st = Inr st"
| "control device_v (GetConfig # calls) st =
     (case playback_device_get_config device_v st of
        (cp, st1) \<Rightarrow> control device_v calls st1)"
| "control device_v (Start ok # calls) st =
     (case playback_device_start ok device_v st of
        Inl e \<Rightarrow> Inl e
      | Inr (r, st1) \<Rightarrow> control device_v calls st1)"
| "control device_v (Stop ok # calls) st =
     (case playback_device_stop ok device_v st of
        Inl e \<Rightarrow> Inl e
      | Inr (r, st1) \<Rightarrow> control device_v calls st1)"

text \<open>
  The \<^verbatim>\<open>ma_device_config\<close> that \<^verbatim>\<open>playback_device_open\<close> hands to \<^verbatim>\<open>ma_device_init\<close>, for
  stating what the backend was asked.
\<close>

abbreviation native_config :: "device_options \<Rightarrow> ptr \<Rightarrow> ma_device_config" where
  "native_config opts device_p \<equiv>
     \<lparr>cfg_channels = opt_channels opts, cfg_format = ma_format_f32,
      cfg_sampleRate = opt_sr opts, cfg_dataCallback_is_data_proc = True,
      cfg_pDeviceID = opt_device_id opts, cfg_pUserData = device_p\<rparr>"

text \<open>Two backends for concrete runs: one grants what is asked, one refuses every device.\<close>

definition accepting_backend :: "ma_device_config \<Rightarrow> (32 word \<times> 32 word) option" where
  "accepting_backend cfg = Some (cfg_channels cfg, cfg_sampleRate cfg)"

definition refusing_backend :: "ma_device_config \<Rightarrow> (32 word \<times> 32 word) option" where
  "refusing_backend cfg = None"

text \<open>
  \<open>same_device a w st st'\<close>: in \<open>st'\<close> the address \<open>a\<close> still holds a complete wrapper
  with the callback, the user data and the configuration of \<open>w\<close>, and a native device that
  differs from that of \<open>w\<close> at most in its streaming state; the same addresses are live,
  every other block is as in \<open>st\<close>, and neither the trace nor the sink registry changed.
\<close>

definition same_device :: "addr \<Rightarrow> wrapped_device \<Rightarrow> world \<Rightarrow> world \<Rightarrow> bool" where
  "same_device a w st st' =
     ((case map_of (heap st') a of
         Some (DeviceBlock w') \<Rightarrow>
           callback w' = callback w \<and> rust_userdata w' = rust_userdata w
           \<and> config w' = config w
           \<and> device w' = (device w)\<lparr>dev_state := dev_state (device w')\<rparr>
       | Some other \<Rightarrow> False
       | None \<Rightarrow> False)
      \<and> live st' = live st
      \<and> (\<forall>x. if x = a then True else map_of (heap st') x = map_of (heap st) x)
      \<and> trace st' = trace st
      \<and> log_callbacks st' = log_callbacks st)"

section \<open>Properties of the logging bridge\<close>

text \<open>
  C9. \<^verbatim>\<open>init_logging\<close> writes the four sink pointers before it attempts the native log
  initialisation, and no path undoes the writes: whatever the two native calls answer,
  and so also when the function returns 0, the registry holds exactly the four arguments.
  It returns 1 exactly when both native calls succeed.
\<close>

theorem init_logging_keeps_sinks:
  "log_callbacks (snd (init_logging e w i d log_init_ok register_ok st))
     = \<lparr>error = e, warn = w, info = i, debug = d\<rparr>
   \<and> log_callbacks (snd (init_logging e w i d False register_ok st))
     = \<lparr>error = e, warn = w, info = i, debug = d\<rparr>
   \<and> fst (init_logging e w i d False register_ok st) = 0
   \<and> log_callbacks (snd (init_logging e w i d True False st))
     = \<lparr>error = e, warn = w, info = i, debug = d\<rparr>
   \<and> fst (init_logging e w i d True False st) = 0
   \<and> (fst (init_logging e w i d log_init_ok register_ok st) = 1) = (log_init_ok \<and> register_ok)"
  by (simp add: init_logging_def Let_def)

lemma levels_distinct:
  "MA_LOG_LEVEL_DEBUG \<noteq> MA_LOG_LEVEL_INFO" "MA_LOG_LEVEL_DEBUG \<noteq> MA_LOG_LEVEL_WARNING"
  "MA_LOG_LEVEL_DEBUG \<noteq> MA_LOG_LEVEL_ERROR" "MA_LOG_LEVEL_INFO \<noteq> MA_LOG_LEVEL_WARNING"
  "MA_LOG_LEVEL_INFO \<noteq> MA_LOG_LEVEL_ERROR" "MA_LOG_LEVEL_WARNING \<noteq> MA_LOG_LEVEL_ERROR"
  "MA_LOG_LEVEL_INFO \<noteq> MA_LOG_LEVEL_DEBUG" "MA_LOG_LEVEL_WARNING \<noteq> MA_LOG_LEVEL_DEBUG"
  "MA_LOG_LEVEL_ERROR \<noteq> MA_LOG_LEVEL_DEBUG" "MA_LOG_LEVEL_WARNING \<noteq> MA_LOG_LEVEL_INFO"
  "MA_LOG_LEVEL_ERROR \<noteq> MA_LOG_LEVEL_INFO" "MA_LOG_LEVEL_ERROR \<noteq> MA_LOG_LEVEL_WARNING"
  by (simp_all add: MA_LOG_LEVEL_DEBUG_def MA_LOG_LEVEL_INFO_def
      MA_LOG_LEVEL_WARNING_def MA_LOG_LEVEL_ERROR_def)

text \<open>
  C2. For a log event whose level is one of the four severities, let \<open>s\<close> be the sink
  registered for exactly that severity. If \<open>s\<close> is present, it is called with the message.
  If \<open>s\<close> is absent and the error sink is present, the error sink is called with the
  message, unchanged, whatever the severity. (With both absent the call goes through a
  null function pointer.)
\<close>

theorem log_callback_routes:
  assumes "(level = MA_LOG_LEVEL_DEBUG \<and> s = debug (log_callbacks st))
         \<or> (level = MA_LOG_LEVEL_INFO \<and> s = info (log_callbacks st))
         \<or> (level = MA_LOG_LEVEL_WARNING \<and> s = warn (log_callbacks st))
         \<or> (level = MA_LOG_LEVEL_ERROR \<and> s = error (log_callbacks st))"
  shows "case s of
           Some f \<Rightarrow> log_callback userdata level message st
                       = Inr (st\<lparr>trace := trace st @ [LogCall f message]\<rparr>)
         | None \<Rightarrow>
             (case error (log_callbacks st) of
                Some e \<Rightarrow> log_callback userdata level message st
                            = Inr (st\<lparr>trace := trace st @ [LogCall e message]\<rparr>)
              | None \<Rightarrow> log_callback userdata level message st = Inl NullCall)"
  using assms
  by (elim disjE conjE)
     (simp_all add: log_callback_def call_log_def levels_distinct split: option.splits)

theorem log_callback_routes_witness:
  "log_callback None MA_LOG_LEVEL_INFO ''hello''
     ((initial_world [])\<lparr>log_callbacks := \<lparr>error = Some 1, warn = None, info = None, debug = None\<rparr>\<rparr>)
   = Inr ((initial_world [])\<lparr>log_callbacks := \<lparr>error = Some 1, warn = None, info = None, debug = None\<rparr>,
                            trace := [LogCall 1 ''hello'']\<rparr>)
   \<and> log_callback None MA_LOG_LEVEL_INFO ''hello''
     ((initial_world [])\<lparr>log_callbacks := \<lparr>error = Some 1, warn = None, info = Some 3, debug = None\<rparr>\<rparr>)
   = Inr ((initial_world [])\<lparr>log_callbacks := \<lparr>error = Some 1, warn = None, info = Some 3, debug = None\<rparr>,
                            trace := [LogCall 3 ''hello'']\<rparr>)"
  using log_callback_routes [of MA_LOG_LEVEL_INFO None
      "(initial_world [])\<lparr>log_callbacks := \<lparr>error = Some 1, warn = None, info = None, debug = None\<rparr>\<rparr>"
      None "''hello''"]
    log_callback_routes [of MA_LOG_LEVEL_INFO "Some 3"
      "(initial_world [])\<lparr>log_callbacks := \<lparr>error = Some 1, warn = None, info = Some 3, debug = None\<rparr>\<rparr>"
      None "''hello''"]
  by (simp add: initial_world_def levels_distinct)

section \<open>The allocator and the enumeration loop\<close>

lemma fold_max_ge: "m \<le> fold max ks (m::nat)"
  by (induction ks arbitrary: m) (auto intro: order_trans[OF max.cobounded2])

lemma fold_max_mem: "k \<in> set ks \<Longrightarrow> k \<le> fold max ks (m::nat)"
proof (induction ks arbitrary: m)
  case Nil then show ?case by simp
next
  case (Cons a ks)
  show ?case
  proof (cases "k = a")
    case True
    have "a \<le> max a m" by simp
    also have "\<dots> \<le> fold max ks (max a m)" by (rule fold_max_ge)
    finally show ?thesis using True by simp
  next
    case False
    with Cons show ?thesis by simp
  qed
qed

lemma fresh_not_key: "fresh h \<notin> fst ` set h"
proof
  assume "fresh h \<in> fst ` set h"
  then have "fresh h \<in> set (map fst h)" by simp
  then have "fresh h \<le> fold max (map fst h) 0" by (rule fold_max_mem)
  then show False by (simp add: fresh_def)
qed

lemma map_of_fresh: "map_of h (fresh h) = None"
  using fresh_not_key [of h] by (simp add: map_of_eq_None_iff)

lemma filter_fresh: "filter (\<lambda>kv. fst kv \<noteq> fresh h) h = h"
  using fresh_not_key [of h] by (force simp: filter_id_conv)

lemma fresh_cons_neq: "fresh ((a, b) # h) \<noteq> a"
  using fresh_not_key [of "(a, b) # h"] by auto

lemma filter_fresh_cons: "filter (\<lambda>kv. fst kv \<noteq> fresh ((a, b) # h)) h = h"
  using fresh_not_key [of "(a, b) # h"] by (force simp: filter_id_conv)

lemma map_of_filter_key:
  "map_of (filter (\<lambda>kv. fst kv \<noteq> a) h) x = (if x = a then None else map_of h x)"
  by (induction h) auto

lemma outcome_cases:
  obtains (name_fails) os where "outs = False # os"
  | (id_fails) os where "outs = True # False # os"
  | (both_succeed) "outs = [] \<or> outs = [True] \<or> (\<exists>os. outs = True # True # os)"
proof (cases outs)
  case Nil then show ?thesis using both_succeed by simp
next
  case (Cons a os)
  show ?thesis
  proof (cases a)
    case False then show ?thesis using Cons name_fails by simp
  next
    case True
    show ?thesis
    proof (cases os)
      case Nil then show ?thesis using Cons True both_succeed by simp
    next
      case (Cons b os')
      then show ?thesis using \<open>outs = a # os\<close> True id_fails both_succeed by (cases b) auto
    qed
  qed
qed

lemma loop_name_fails:
  "alloc_outcomes st = False # os \<Longrightarrow>
   enumerate_loop cb userdata (p # rest) st = Inr (1, st\<lparr>alloc_outcomes := os\<rparr>)"
  by (simp add: strdup_def alloc_def)

lemma loop_id_fails:
  "alloc_outcomes st = True # False # os \<Longrightarrow>
   enumerate_loop cb userdata (p # rest) st = Inr (1, st\<lparr>alloc_outcomes := os\<rparr>)"
  by (simp add: strdup_def malloc_def alloc_def free_def filter_fresh)

lemma loop_both_succeed:
  "alloc_outcomes st = [] \<or> alloc_outcomes st = [True] \<or> (\<exists>os. alloc_outcomes st = True # True # os) \<Longrightarrow>
   enumerate_loop (Some f) userdata (p # rest) st =
     enumerate_loop (Some f) userdata rest (visited f userdata p st)"
  by (cases st) (auto simp: strdup_def malloc_def alloc_def store_def call_visitor_def visited_def
      fresh_cons_neq fresh_cons_neq [THEN not_sym] filter_fresh_cons)

lemma loop_null_visitor:
  "alloc_outcomes st = [] \<or> alloc_outcomes st = [True] \<or> (\<exists>os. alloc_outcomes st = True # True # os) \<Longrightarrow>
   enumerate_loop None userdata (p # rest) st = Inl NullCall"
  by (auto simp: strdup_def malloc_def alloc_def store_def call_visitor_def)

lemma enumerate_loop_returns: "\<exists>st'. enumerate_loop (Some f) userdata ds st = Inr (1, st')"
proof (induction ds arbitrary: st)
  case Nil show ?case by simp
next
  case (Cons p rest)
  show ?case
  proof (cases "alloc_outcomes st" rule: outcome_cases)
    case (name_fails os) then show ?thesis using loop_name_fails by blast
  next
    case (id_fails os) then show ?thesis using loop_id_fails by blast
  next
    case both_succeed
    then show ?thesis using Cons.IH [of "visited f userdata p st"]
      by (simp only: loop_both_succeed)
  qed
qed


lemma map_of_Some_live: "map_of (heap st) a = Some b \<Longrightarrow> a \<in> live st"
  by (auto simp: live_def dest: map_of_SomeD intro: rev_image_eqI)

lemma fresh_not_live: "fresh (heap st) \<notin> live st"
  by (simp add: live_def fresh_not_key)

lemma fresh_cons_not_live: "fresh ((a, b) # heap st) \<notin> live st"
  using fresh_not_key [of "(a, b) # heap st"] by (simp add: live_def)

lemma live_visited:
  "live (visited f userdata p st) =
     {fresh (heap st), fresh ((fresh (heap st), NameBlock (info_name p)) # heap st)} \<union> live st"
  by (auto simp: visited_def live_def)

lemma trace_visited:
  "trace (visited f userdata p st) = trace st @
     [VisitorCall f \<lparr>name = Some (fresh (heap st)),
                     is_platform_default = ucast (isDefault p),
                     id_blob = Some (fresh ((fresh (heap st), NameBlock (info_name p)) # heap st))\<rparr>
        userdata]"
  by (simp add: visited_def)

lemma heap_visited_name:
  "map_of (heap (visited f userdata p st)) (fresh (heap st)) = Some (NameBlock (info_name p))"
  by (simp add: visited_def fresh_cons_neq [THEN not_sym])

lemma heap_visited_id:
  "map_of (heap (visited f userdata p st))
     (fresh ((fresh (heap st), NameBlock (info_name p)) # heap st)) = Some (IdBlock (info_id p))"
  by (simp add: visited_def)

lemma heap_visited_old:
  assumes "map_of (heap st) a = Some b"
  shows "map_of (heap (visited f userdata p st)) a = Some b"
proof -
  have "a \<in> live st" using assms by (rule map_of_Some_live)
  then have "a \<noteq> fresh (heap st)"
    and "a \<noteq> fresh ((fresh (heap st), NameBlock (info_name p)) # heap st)"
    using fresh_not_live [of st] fresh_cons_not_live [of _ _ st] by auto
  then show ?thesis using assms by (simp add: visited_def)
qed

lemma outcomes_visited: "alloc_outcomes (visited f userdata p st) = drop 2 (alloc_outcomes st)"
  by (simp add: visited_def)

lemma enumerated_nothing:
  "enumerated f userdata st (st\<lparr>alloc_outcomes := os\<rparr>) [] []"
  by (simp add: enumerated_def live_def)

lemma enumerate_loop_delivers:
  assumes "enumerate_loop (Some f) userdata ds st = Inr (r, st')"
  shows "(\<exists>ds1 ds2 evs. ds = ds1 @ ds2 \<and> enumerated f userdata st st' ds1 evs
            \<and> (set (alloc_outcomes st) \<subseteq> {True} \<longrightarrow> ds2 = []))
         \<and> (\<forall>a b. map_of (heap st) a = Some b \<longrightarrow> map_of (heap st') a = Some b)"
  using assms
proof (induction ds arbitrary: st)
  case Nil
  then have "st' = st" by simp
  then have "enumerated f userdata st st' [] []"
    by (simp add: enumerated_def)
  then have "[] = [] @ [] \<and> enumerated f userdata st st' [] []
      \<and> (set (alloc_outcomes st) \<subseteq> {True} \<longrightarrow> ([]::ma_device_info list) = [])"
    by simp
  then have "\<exists>ds1 ds2 evs. [] = ds1 @ ds2 \<and> enumerated f userdata st st' ds1 evs
      \<and> (set (alloc_outcomes st) \<subseteq> {True} \<longrightarrow> ds2 = [])"
    by (intro exI)
  then show ?case using \<open>st' = st\<close> by simp
next
  case (Cons p rest)
  have stops: "?case" if st': "st' = st\<lparr>alloc_outcomes := os\<rparr>"
    and nt: "\<not> set (alloc_outcomes st) \<subseteq> {True}" for os
  proof -
    have "p # rest = [] @ (p # rest) \<and> enumerated f userdata st st' [] []
        \<and> (set (alloc_outcomes st) \<subseteq> {True} \<longrightarrow> p # rest = [])"
      using nt by (simp add: st' enumerated_nothing)
    then have "\<exists>ds1 ds2 evs. p # rest = ds1 @ ds2 \<and> enumerated f userdata st st' ds1 evs
        \<and> (set (alloc_outcomes st) \<subseteq> {True} \<longrightarrow> ds2 = [])"
      by (intro exI)
    moreover have "\<forall>a b. map_of (heap st) a = Some b \<longrightarrow> map_of (heap st') a = Some b"
      by (simp add: st')
    ultimately show ?thesis by (rule conjI)
  qed
  show ?case
  proof (cases "alloc_outcomes st" rule: outcome_cases)
    case (name_fails os)
    then have "st' = st\<lparr>alloc_outcomes := os\<rparr>"
      using Cons.prems loop_name_fails [of st os "Some f" userdata p rest] by simp
    moreover have "\<not> set (alloc_outcomes st) \<subseteq> {True}" using name_fails by simp
    ultimately show ?thesis by (rule stops)
  next
    case (id_fails os)
    then have "st' = st\<lparr>alloc_outcomes := os\<rparr>"
      using Cons.prems loop_id_fails [of st os "Some f" userdata p rest] by simp
    moreover have "\<not> set (alloc_outcomes st) \<subseteq> {True}" using id_fails by simp
    ultimately show ?thesis by (rule stops)
  next
    case both_succeed
    define sv where "sv = visited f userdata p st"
    define n where "n = fresh (heap st)"
    define i where "i = fresh ((fresh (heap st), NameBlock (info_name p)) # heap st)"
    define ev where "ev = VisitorCall f \<lparr>name = Some n,
        is_platform_default = ucast (isDefault p), id_blob = Some i\<rparr> userdata"
    have "enumerate_loop (Some f) userdata (p # rest) st = enumerate_loop (Some f) userdata rest sv"
      unfolding sv_def using both_succeed by (rule loop_both_succeed)
    then have run: "enumerate_loop (Some f) userdata rest sv = Inr (r, st')"
      using Cons.prems by simp
    from Cons.IH [OF run] obtain ds1 ds2 evs where
      split: "rest = ds1 @ ds2" and
      en: "enumerated f userdata sv st' ds1 evs" and
      full: "set (alloc_outcomes sv) \<subseteq> {True} \<longrightarrow> ds2 = []" and
      keep: "\<forall>a b. map_of (heap sv) a = Some b \<longrightarrow> map_of (heap st') a = Some b"
      by blast
    from en have tr: "trace st' = trace sv @ evs" and
      del: "list_all2 (delivered st' f userdata) ds1 evs" and
      lv: "live st' = live sv \<union> \<Union> (event_blocks ` set evs)" and
      disj: "live sv \<inter> \<Union> (event_blocks ` set evs) = {}"
      by (simp_all add: enumerated_def)
    have lsv: "live sv = {n, i} \<union> live st"
      by (simp add: sv_def n_def i_def live_visited)
    have blocks: "event_blocks ev = {n, i}"
      by (auto simp: ev_def)
    have new: "n \<notin> live st" "i \<notin> live st"
      by (simp_all add: n_def i_def fresh_not_live fresh_cons_not_live)
    have "map_of (heap sv) n = Some (NameBlock (info_name p))"
      unfolding sv_def n_def by (rule heap_visited_name)
    then have hn: "map_of (heap st') n = Some (NameBlock (info_name p))"
      using keep by simp
    have "map_of (heap sv) i = Some (IdBlock (info_id p))"
      unfolding sv_def i_def by (rule heap_visited_id)
    then have hi: "map_of (heap st') i = Some (IdBlock (info_id p))"
      using keep by simp
    have d0: "delivered st' f userdata p ev"
      using hn hi by (simp add: delivered_def ev_def)
    have c1: "p # rest = (p # ds1) @ ds2" using split by simp
    have "trace sv = trace st @ [ev]"
      by (simp add: sv_def trace_visited ev_def n_def i_def)
    then have c2: "trace st' = trace st @ (ev # evs)"
      using tr by simp
    have c3: "list_all2 (delivered st' f userdata) (p # ds1) (ev # evs)"
      using d0 del by simp
    have c4: "live st' = live st \<union> \<Union> (event_blocks ` set (ev # evs))"
      using lv lsv blocks by auto
    have c5: "live st \<inter> \<Union> (event_blocks ` set (ev # evs)) = {}"
      using disj lsv blocks new by auto
    have en': "enumerated f userdata st st' (p # ds1) (ev # evs)"
      unfolding enumerated_def using c2 c3 c4 c5 by (intro conjI)
    have "set (drop 2 (alloc_outcomes st)) \<subseteq> set (alloc_outcomes st)"
      by (rule set_drop_subset)
    then have c6: "set (alloc_outcomes st) \<subseteq> {True} \<longrightarrow> ds2 = []"
      using full by (auto simp: sv_def outcomes_visited)
    have c7: "\<forall>a b. map_of (heap st) a = Some b \<longrightarrow> map_of (heap st') a = Some b"
    proof (intro allI impI)
      fix a b assume "map_of (heap st) a = Some b"
      then have "map_of (heap sv) a = Some b"
        unfolding sv_def by (rule heap_visited_old)
      then show "map_of (heap st') a = Some b" using keep by simp
    qed
    have "p # rest = (p # ds1) @ ds2 \<and> enumerated f userdata st st' (p # ds1) (ev # evs)
        \<and> (set (alloc_outcomes st) \<subseteq> {True} \<longrightarrow> ds2 = [])"
      using c1 en' c6 by (intro conjI)
    then have "\<exists>ds1 ds2 evs. p # rest = ds1 @ ds2 \<and> enumerated f userdata st st' ds1 evs
        \<and> (set (alloc_outcomes st) \<subseteq> {True} \<longrightarrow> ds2 = [])"
      by (intro exI)
    then show ?thesis using c7 by (rule conjI)
  qed
qed

lemma enumerate_loop_never_zero: "enumerate_loop cb userdata ds st \<noteq> Inr (0, st')"
proof (induction ds arbitrary: st)
  case Nil show ?case by simp
next
  case (Cons p rest)
  show ?case
  proof (cases "alloc_outcomes st" rule: outcome_cases)
    case (name_fails os) then show ?thesis using loop_name_fails [of st os cb userdata p rest] by simp
  next
    case (id_fails os) then show ?thesis using loop_id_fails [of st os cb userdata p rest] by simp
  next
    case both_succeed
    show ?thesis
    proof (cases cb)
      case None
      then show ?thesis using loop_null_visitor [OF both_succeed, of userdata p rest] by simp
    next
      case (Some f)
      then show ?thesis
        using loop_both_succeed [OF both_succeed, of f userdata p rest] Cons.IH by simp
    qed
  qed
qed

lemma delivered_outcomes: "delivered (st\<lparr>alloc_outcomes := os\<rparr>) = delivered st"
  by (intro ext) (simp add: delivered_def split: event.splits option.splits)

lemma enumerated_outcomes:
  "enumerated f userdata (st\<lparr>alloc_outcomes := os\<rparr>) st' ds evs
   \<Longrightarrow> enumerated f userdata st (st'\<lparr>alloc_outcomes := os'\<rparr>) ds evs"
  by (simp add: enumerated_def live_def delivered_outcomes)

lemma visited_outcomes:
  "visited f userdata p (st\<lparr>alloc_outcomes := []\<rparr>) = (visited f userdata p st)\<lparr>alloc_outcomes := []\<rparr>"
  by (simp add: visited_def)

lemma enumerate_loop_prefix:
  assumes "alloc_outcomes st = replicate (2 * length ds1) True @ os"
  shows "\<exists>st1. enumerate_loop (Some f) userdata ds1 (st\<lparr>alloc_outcomes := []\<rparr>) = Inr (1, st1)
           \<and> enumerate_loop (Some f) userdata (ds1 @ ds') st
               = enumerate_loop (Some f) userdata ds' (st1\<lparr>alloc_outcomes := os\<rparr>)"
  using assms
proof (induction ds1 arbitrary: st)
  case Nil
  then have "st\<lparr>alloc_outcomes := os\<rparr> = st" by simp
  then show ?case by simp
next
  case (Cons p ds)
  define sv where "sv = visited f userdata p st"
  have outs: "alloc_outcomes st = True # True # (replicate (2 * length ds) True @ os)"
    using Cons.prems by simp
  then have both: "alloc_outcomes st = [] \<or> alloc_outcomes st = [True]
      \<or> (\<exists>os. alloc_outcomes st = True # True # os)"
    by simp
  have "alloc_outcomes sv = replicate (2 * length ds) True @ os"
    using outs by (simp add: sv_def outcomes_visited)
  from Cons.IH [OF this] obtain st1 where
    r1: "enumerate_loop (Some f) userdata ds (sv\<lparr>alloc_outcomes := []\<rparr>) = Inr (1, st1)" and
    r2: "enumerate_loop (Some f) userdata (ds @ ds') sv
           = enumerate_loop (Some f) userdata ds' (st1\<lparr>alloc_outcomes := os\<rparr>)"
    by blast
  have "enumerate_loop (Some f) userdata (p # ds) (st\<lparr>alloc_outcomes := []\<rparr>)
      = enumerate_loop (Some f) userdata ds (visited f userdata p (st\<lparr>alloc_outcomes := []\<rparr>))"
    by (rule loop_both_succeed) simp
  then have a: "enumerate_loop (Some f) userdata (p # ds) (st\<lparr>alloc_outcomes := []\<rparr>) = Inr (1, st1)"
    using r1 by (simp add: visited_outcomes sv_def)
  have "enumerate_loop (Some f) userdata (p # (ds @ ds')) st
      = enumerate_loop (Some f) userdata (ds @ ds') sv"
    unfolding sv_def using both by (rule loop_both_succeed)
  then have b: "enumerate_loop (Some f) userdata ((p # ds) @ ds') st
      = enumerate_loop (Some f) userdata ds' (st1\<lparr>alloc_outcomes := os\<rparr>)"
    using r2 by simp
  from a b show ?case by blast
qed

lemma list_all2_pick:
  "list_all2 P xs ys \<Longrightarrow> y \<in> set ys \<Longrightarrow> \<exists>x. x \<in> set xs \<and> P x y"
  by (induction rule: list_all2_induct) auto

lemma live_free_filter:
  "live (st\<lparr>heap := filter (\<lambda>kv. fst kv \<noteq> a) (heap st)\<rparr>) = live st - {a}"
  by (auto simp: live_def)

lemma deinit_delivered:
  assumes "delivered st f userdata p (VisitorCall g di u)"
  shows "\<exists>st''. device_info_deinit (Some di) st = Inr st''
           \<and> live st'' = live st - event_blocks (VisitorCall g di u)"
proof -
  from assms obtain n i where
    n: "name di = Some n" "map_of (heap st) n = Some (NameBlock (info_name p))" and
    i: "id_blob di = Some i" "map_of (heap st) i = Some (IdBlock (info_id p))"
    by (auto simp: delivered_def split: option.splits)
  then have "n \<noteq> i" by auto
  define st1 where "st1 = st\<lparr>heap := filter (\<lambda>kv. fst kv \<noteq> n) (heap st)\<rparr>"
  have f1: "free (Some n) st = Inr st1"
    using n by (simp add: free_def st1_def)
  have "map_of (heap st1) i = Some (IdBlock (info_id p))"
    using i \<open>n \<noteq> i\<close> by (simp add: st1_def map_of_filter_key)
  then have f2: "free (Some i) st1 = Inr (st1\<lparr>heap := filter (\<lambda>kv. fst kv \<noteq> i) (heap st1)\<rparr>)"
    by (simp add: free_def)
  have "device_info_deinit (Some di) st = Inr (st1\<lparr>heap := filter (\<lambda>kv. fst kv \<noteq> i) (heap st1)\<rparr>)"
    using f1 f2 n i by (simp add: device_info_deinit_def)
  moreover have "live (st1\<lparr>heap := filter (\<lambda>kv. fst kv \<noteq> i) (heap st1)\<rparr>) = live st1 - {i}"
    by (rule live_free_filter)
  moreover have "live st1 = live st - {n}"
    unfolding st1_def by (rule live_free_filter)
  moreover have "event_blocks (VisitorCall g di u) = {n, i}"
    using n i by auto
  ultimately show ?thesis by blast
qed

section \<open>Properties of the device enumerator\<close>

text \<open>
  C3. \<^verbatim>\<open>enumerate_output_devices\<close> returns 0 exactly when the device query fails. With a
  visitor that can be called it always returns, with 0 if the query failed and 1 otherwise;
  whatever the visitor pointer, a failed query gives 0 with the state untouched, a
  successful query never gives 0, and a successful query reporting no playback device
  gives 1 with the state untouched, so with no call of the visitor.
\<close>

theorem enumerate_fails_iff_query_fails:
  "(\<exists>st'. enumerate_output_devices (Some f) userdata q st = Inr (if q = None then 0 else 1, st'))
   \<and> enumerate_output_devices cb userdata None st = Inr (0, st)
   \<and> (\<forall>ds st'. enumerate_output_devices cb userdata (Some ds) st \<noteq> Inr (0, st'))
   \<and> enumerate_output_devices cb userdata (Some []) st = Inr (1, st)"
proof (intro conjI)
  show "\<exists>st'. enumerate_output_devices (Some f) userdata q st = Inr (if q = None then 0 else 1, st')"
    using enumerate_loop_returns [of f userdata _ st]
    by (cases q) (simp_all add: enumerate_output_devices_def)
  show "enumerate_output_devices cb userdata None st = Inr (0, st)"
    by (simp add: enumerate_output_devices_def)
  show "\<forall>ds st'. enumerate_output_devices cb userdata (Some ds) st \<noteq> Inr (0, st')"
    by (simp add: enumerate_output_devices_def enumerate_loop_never_zero)
  show "enumerate_output_devices cb userdata (Some []) st = Inr (1, st)"
    by (simp add: enumerate_output_devices_def)
qed

theorem enumerate_fails_iff_query_fails_witness:
  "(\<exists>st'. enumerate_output_devices (Some 7) None (Some []) (initial_world []) = Inr (1, st'))
   \<and> enumerate_output_devices (Some 7) None None (initial_world []) = Inr (0, initial_world [])
   \<and> enumerate_output_devices (Some 7) None (Some []) (initial_world [])
       = Inr (1, initial_world [])"
  using enumerate_fails_iff_query_fails [of 7 None "Some []" "initial_world []" "Some 7"]
    enumerate_fails_iff_query_fails [of 7 None None "initial_world []" "Some 7"]
  by simp

text \<open>
  C1, as the claim states it, fails: the loop body never frees the two blocks it hands to
  the visitor. After enumerating one device with every allocation succeeding, the call has
  returned 1 and the copy of the name and the copy of the identifier are both still in the
  heap.
\<close>

theorem enumerate_keeps_blocks_counterexample:
  "enumerate_output_devices (Some 7) None
     (Some [\<lparr>info_id = [1, 2], info_name = ''spk'', isDefault = 1\<rparr>]) (initial_world [])
   = Inr (1, (initial_world [])
        \<lparr>heap := [(2, IdBlock [1, 2]), (1, NameBlock ''spk'')],
         trace := [VisitorCall 7
                     \<lparr>name = Some 1, is_platform_default = 1, id_blob = Some 2\<rparr> None]\<rparr>)"
  by (simp add: enumerate_output_devices_def initial_world_def strdup_def malloc_def alloc_def
      store_def call_visitor_def fresh_def)

text \<open>
  C1, amended. The enumerator does not release what it hands to the visitor. When a call
  with a callable visitor returns, the visitor has been called once for each device of a
  prefix of the reported list, in order (for all of them when no allocation fails); the
  name copy and the identifier copy of every descriptor handed over are live in the final
  heap and hold the device's name and identifier; the live addresses are those from before
  the call plus exactly these blocks. Their release is \<^verbatim>\<open>device_info_deinit\<close>, which on
  each such descriptor succeeds and frees exactly its two blocks.
\<close>

theorem enumerate_leaves_descriptors_live:
  assumes "enumerate_output_devices (Some f) userdata (Some ds) st = Inr (r, st')"
  shows "\<exists>ds1 ds2 evs. ds = ds1 @ ds2 \<and> enumerated f userdata st st' ds1 evs
           \<and> (if set (alloc_outcomes st) \<subseteq> {True} then ds2 = [] else True)
           \<and> (\<forall>e \<in> set evs. \<exists>g di u st''. e = VisitorCall g di u
                  \<and> device_info_deinit (Some di) st' = Inr st''
                  \<and> live st'' = live st' - event_blocks e)"
proof -
  from assms have "enumerate_loop (Some f) userdata ds st = Inr (r, st')"
    by (simp add: enumerate_output_devices_def)
  from enumerate_loop_delivers [OF this] obtain ds1 ds2 evs where
    split: "ds = ds1 @ ds2" and en: "enumerated f userdata st st' ds1 evs" and
    full: "set (alloc_outcomes st) \<subseteq> {True} \<longrightarrow> ds2 = []"
    by blast
  have rel: "\<forall>e \<in> set evs. \<exists>g di u st''. e = VisitorCall g di u
      \<and> device_info_deinit (Some di) st' = Inr st'' \<and> live st'' = live st' - event_blocks e"
  proof
    fix e assume "e \<in> set evs"
    moreover have "list_all2 (delivered st' f userdata) ds1 evs"
      using en by (simp add: enumerated_def)
    ultimately obtain p where d: "delivered st' f userdata p e"
      using list_all2_pick [of "delivered st' f userdata" ds1 evs e] by blast
    then obtain g di u where e: "e = VisitorCall g di u"
      by (cases e) (simp_all add: delivered_def)
    from deinit_delivered [OF d [unfolded e]] obtain st'' where
      "device_info_deinit (Some di) st' = Inr st''"
      "live st'' = live st' - event_blocks (VisitorCall g di u)"
      by blast
    then have "e = VisitorCall g di u
      \<and> device_info_deinit (Some di) st' = Inr st'' \<and> live st'' = live st' - event_blocks e"
      using e by simp
    then show "\<exists>g di u st''. e = VisitorCall g di u
      \<and> device_info_deinit (Some di) st' = Inr st'' \<and> live st'' = live st' - event_blocks e"
      by (intro exI)
  qed
  have full': "if set (alloc_outcomes st) \<subseteq> {True} then ds2 = [] else True"
    using full by simp
  have "ds = ds1 @ ds2 \<and> enumerated f userdata st st' ds1 evs
      \<and> (if set (alloc_outcomes st) \<subseteq> {True} then ds2 = [] else True)
      \<and> (\<forall>e \<in> set evs. \<exists>g di u st''. e = VisitorCall g di u
             \<and> device_info_deinit (Some di) st' = Inr st''
             \<and> live st'' = live st' - event_blocks e)"
    using split en full' rel by (intro conjI)
  then show ?thesis by (intro exI)
qed

theorem enumerate_leaves_descriptors_live_witness:
  "enumerate_output_devices (Some 7) None
     (Some [\<lparr>info_id = [1, 2], info_name = ''spk'', isDefault = 1\<rparr>]) (initial_world [])
   = Inr (1, (initial_world [])
        \<lparr>heap := [(2, IdBlock [1, 2]), (1, NameBlock ''spk'')],
         trace := [VisitorCall 7
                     \<lparr>name = Some 1, is_platform_default = 1, id_blob = Some 2\<rparr> None]\<rparr>)
   \<and> (\<exists>ds1 ds2 evs. [\<lparr>info_id = [1, 2], info_name = ''spk'', isDefault = 1\<rparr>] = ds1 @ ds2
        \<and> enumerated 7 None (initial_world [])
             ((initial_world [])
                \<lparr>heap := [(2, IdBlock [1, 2]), (1, NameBlock ''spk'')],
                 trace := [VisitorCall 7
                     \<lparr>name = Some 1, is_platform_default = 1, id_blob = Some 2\<rparr> None]\<rparr>)
             ds1 evs
        \<and> (if set (alloc_outcomes (initial_world [])) \<subseteq> {True} then ds2 = [] else True)
        \<and> (\<forall>e \<in> set evs. \<exists>g di u st''. e = VisitorCall g di u
              \<and> device_info_deinit (Some di)
                   ((initial_world [])
                      \<lparr>heap := [(2, IdBlock [1, 2]), (1, NameBlock ''spk'')],
                       trace := [VisitorCall 7
                         \<lparr>name = Some 1, is_platform_default = 1, id_blob = Some 2\<rparr> None]\<rparr>)
                  = Inr st''
              \<and> live st'' = live ((initial_world [])
                      \<lparr>heap := [(2, IdBlock [1, 2]), (1, NameBlock ''spk'')],
                       trace := [VisitorCall 7
                         \<lparr>name = Some 1, is_platform_default = 1, id_blob = Some 2\<rparr> None]\<rparr>)
                    - event_blocks e))"
proof -
  have run: "enumerate_output_devices (Some 7) None
     (Some [\<lparr>info_id = [1, 2], info_name = ''spk'', isDefault = 1\<rparr>]) (initial_world [])
   = Inr (1, (initial_world [])
        \<lparr>heap := [(2, IdBlock [1, 2]), (1, NameBlock ''spk'')],
         trace := [VisitorCall 7
                     \<lparr>name = Some 1, is_platform_default = 1, id_blob = Some 2\<rparr> None]\<rparr>)"
    by (simp add: enumerate_output_devices_def initial_world_def strdup_def malloc_def alloc_def
        store_def call_visitor_def fresh_def)
  show ?thesis
    using run enumerate_leaves_descriptors_live [OF run] by (intro conjI)
qed

text \<open>
  C4. Let the devices \<open>ds1\<close> be enumerated with every allocation succeeding, and let an
  allocation fail at the next device \<open>p\<close>: the name copy (\<open>pat = [False]\<close>) or, after the
  name copy succeeded, the identifier copy (\<open>pat = [True, False]\<close>). Then the call returns
  1; the trace has grown by the visitor calls for \<open>ds1\<close> and nothing else, so no call for
  \<open>p\<close> or a later device; and the live addresses are those from before the call plus the
  blocks handed to the visitor for \<open>ds1\<close>, so nothing allocated for \<open>p\<close> is left.
\<close>

theorem enumerate_allocation_failure:
  assumes "alloc_outcomes st = replicate (2 * length ds1) True @ pat @ os"
    and "pat = [False] \<or> pat = [True, False]"
  shows "\<exists>st' evs. enumerate_output_devices (Some f) userdata (Some (ds1 @ p # ds2)) st = Inr (1, st')
           \<and> enumerated f userdata st st' ds1 evs
           \<and> alloc_outcomes st' = os"
proof -
  from enumerate_loop_prefix [OF assms(1), of f userdata "p # ds2"] obtain st1 where
    r1: "enumerate_loop (Some f) userdata ds1 (st\<lparr>alloc_outcomes := []\<rparr>) = Inr (1, st1)" and
    r2: "enumerate_loop (Some f) userdata (ds1 @ p # ds2) st
           = enumerate_loop (Some f) userdata (p # ds2) (st1\<lparr>alloc_outcomes := pat @ os\<rparr>)"
    by blast
  have "enumerate_loop (Some f) userdata (p # ds2) (st1\<lparr>alloc_outcomes := pat @ os\<rparr>)
      = Inr (1, st1\<lparr>alloc_outcomes := os\<rparr>)"
    using assms(2)
      loop_name_fails [of "st1\<lparr>alloc_outcomes := pat @ os\<rparr>" os "Some f" userdata p ds2]
      loop_id_fails [of "st1\<lparr>alloc_outcomes := pat @ os\<rparr>" os "Some f" userdata p ds2]
    by auto
  then have res: "enumerate_output_devices (Some f) userdata (Some (ds1 @ p # ds2)) st
      = Inr (1, st1\<lparr>alloc_outcomes := os\<rparr>)"
    using r2 by (simp add: enumerate_output_devices_def)
  from enumerate_loop_delivers [OF r1] obtain da db evs where
    split: "ds1 = da @ db" and en: "enumerated f userdata (st\<lparr>alloc_outcomes := []\<rparr>) st1 da evs" and
    full: "set (alloc_outcomes (st\<lparr>alloc_outcomes := []\<rparr>)) \<subseteq> {True} \<longrightarrow> db = []"
    by blast
  have "da = ds1" using split full by simp
  then have "enumerated f userdata st (st1\<lparr>alloc_outcomes := os\<rparr>) ds1 evs"
    using en enumerated_outcomes by blast
  then have "enumerate_output_devices (Some f) userdata (Some (ds1 @ p # ds2)) st
        = Inr (1, st1\<lparr>alloc_outcomes := os\<rparr>)
      \<and> enumerated f userdata st (st1\<lparr>alloc_outcomes := os\<rparr>) ds1 evs
      \<and> alloc_outcomes (st1\<lparr>alloc_outcomes := os\<rparr>) = os"
    using res by simp
  then show ?thesis by (intro exI)
qed

theorem enumerate_allocation_failure_witness:
  "\<exists>st' evs.
     enumerate_output_devices (Some 7) None
       (Some ([\<lparr>info_id = [1, 2], info_name = ''spk'', isDefault = 1\<rparr>]
              @ \<lparr>info_id = [3], info_name = ''hp'', isDefault = 0\<rparr> # []))
       (initial_world [True, True, True, False]) = Inr (1, st')
     \<and> enumerated 7 None (initial_world [True, True, True, False]) st'
          [\<lparr>info_id = [1, 2], info_name = ''spk'', isDefault = 1\<rparr>] evs
     \<and> alloc_outcomes st' = []"
proof -
  have outs: "alloc_outcomes (initial_world [True, True, True, False])
      = replicate (2 * length [\<lparr>info_id = [1, 2], info_name = ''spk'', isDefault = (1::32 word)\<rparr>]) True
        @ [True, False] @ []"
    by (simp add: initial_world_def numeral_2_eq_2)
  have pat: "[True, False] = [False] \<or> [True, False] = [True, False]"
    by simp
  show ?thesis
    by (rule enumerate_allocation_failure [OF outs pat])
qed

section \<open>Properties of the playback device\<close>

lemma store_live:
  "map_of (heap st) a = Some old \<Longrightarrow>
   store (Some a) b st = Inr (st\<lparr>heap := (a, b) # filter (\<lambda>kv. fst kv \<noteq> a) (heap st)\<rparr>)"
  by (simp add: store_def)

lemma load_device_live:
  "map_of (heap st) a = Some (DeviceBlock w) \<Longrightarrow> load_device (Some a) st = Inr (a, w)"
  by (simp add: load_device_def)

lemma start_step:
  assumes "map_of (heap st) a = Some (DeviceBlock w)"
  shows "playback_device_start ok (Some a) st =
     Inr (if ok then 1 else 0,
          st\<lparr>heap := (a, DeviceBlock (w\<lparr>device := (device w)
                          \<lparr>dev_state := if ok then Started else dev_state (device w)\<rparr>\<rparr>))
                      # filter (\<lambda>kv. fst kv \<noteq> a) (heap st)\<rparr>)"
  using assms
  by (simp add: playback_device_start_def load_device_live store_live ma_device_start_def)

lemma stop_step:
  assumes "map_of (heap st) a = Some (DeviceBlock w)"
  shows "playback_device_stop ok (Some a) st =
     Inr (if ok then 1 else 0,
          st\<lparr>heap := (a, DeviceBlock (w\<lparr>device := (device w)
                          \<lparr>dev_state := if ok then Stopped else dev_state (device w)\<rparr>\<rparr>))
                      # filter (\<lambda>kv. fst kv \<noteq> a) (heap st)\<rparr>)"
  using assms
  by (simp add: playback_device_stop_def load_device_live store_live ma_device_stop_def)

lemma same_device_refl:
  "map_of (heap st) a = Some (DeviceBlock w) \<Longrightarrow> same_device a w st st"
  by (simp add: same_device_def)

lemma same_device_update:
  assumes "map_of (heap st1) a = Some (DeviceBlock w1)" and "same_device a w st st1"
  shows "same_device a w st
           (st1\<lparr>heap := (a, DeviceBlock (w1\<lparr>device := (device w1)\<lparr>dev_state := s\<rparr>\<rparr>))
                         # filter (\<lambda>kv. fst kv \<noteq> a) (heap st1)\<rparr>)"
proof -
  have "a \<in> live st1" using assms(1) by (rule map_of_Some_live)
  then have "insert a (live st1 - {a}) = live st1" by auto
  then have lv: "live (st1\<lparr>heap := (a, DeviceBlock (w1\<lparr>device := (device w1)\<lparr>dev_state := s\<rparr>\<rparr>))
                         # filter (\<lambda>kv. fst kv \<noteq> a) (heap st1)\<rparr>) = live st1"
    using live_free_filter [where st = st1 and a = a] by (simp add: live_def)
  have dv: "device w1 = (device w)\<lparr>dev_state := dev_state (device w1)\<rparr>"
    using assms by (simp add: same_device_def)
  have "(device w1)\<lparr>dev_state := s\<rparr> = (device w)\<lparr>dev_state := s\<rparr>"
    by (subst dv) simp
  then show ?thesis
    using assms lv by (simp add: same_device_def map_of_filter_key)
qed

lemma control_same_device:
  assumes "map_of (heap st1) a = Some (DeviceBlock w1)" and "same_device a w st st1"
  shows "\<exists>st'. control (Some a) calls st1 = Inr st' \<and> same_device a w st st'"
  using assms
proof (induction calls arbitrary: st1 w1)
  case Nil
  then show ?case by simp
next
  case (Cons c calls)
  have step: "\<exists>st'. control (Some a) calls st2 = Inr st' \<and> same_device a w st st'"
    if "st2 = st1\<lparr>heap := (a, DeviceBlock (w1\<lparr>device := (device w1)\<lparr>dev_state := s\<rparr>\<rparr>))
                         # filter (\<lambda>kv. fst kv \<noteq> a) (heap st1)\<rparr>" for st2 s
  proof -
    have "map_of (heap st2) a = Some (DeviceBlock (w1\<lparr>device := (device w1)\<lparr>dev_state := s\<rparr>\<rparr>))"
      by (simp add: that)
    moreover have "same_device a w st st2"
      unfolding that using Cons.prems by (rule same_device_update)
    ultimately show ?thesis by (rule Cons.IH)
  qed
  show ?case
  proof (cases c)
    case GetConfig
    then show ?thesis
      using Cons.IH [OF Cons.prems] by (simp add: playback_device_get_config_def)
  next
    case (Start ok)
    then show ?thesis
      using step [OF refl] start_step [OF Cons.prems(1), of ok] by simp
  next
    case (Stop ok)
    then show ?thesis
      using step [OF refl] stop_step [OF Cons.prems(1), of ok] by simp
  qed
qed



text \<open>
  C10. \<^verbatim>\<open>playback_device_open\<close> writes through the result of \<^verbatim>\<open>malloc\<close> without checking
  it: when the allocation of the wrapper fails, the call does not return a null handle, it
  dereferences a null pointer, whatever the backend would have answered.
\<close>

theorem open_unchecked_allocation:
  "alloc_outcomes st = False # os \<Longrightarrow>
   playback_device_open negotiate (Some opts) cb userdata st = Inl NullDereference"
  by (simp add: playback_device_open_def malloc_def alloc_def store_def)

theorem open_unchecked_allocation_witness:
  "playback_device_open accepting_backend
     (Some \<lparr>opt_device_id = None, opt_channels = 2, opt_sr = 48000\<rparr>) (Some 9) (Some 100)
     (initial_world [False]) = Inl NullDereference"
  using open_unchecked_allocation [of "initial_world [False]" "[]"]
  by (simp add: initial_world_def)

text \<open>
  C6. When the wrapper was allocated (the native initialisation is only reached then) and
  the native initialisation fails, \<^verbatim>\<open>playback_device_open\<close> returns a null handle and the
  state it leaves is the state before the call with one allocation outcome used up: the
  wrapper block is freed again, so no block holding the callback or the user data remains.
\<close>

theorem open_init_failure_releases:
  "alloc_outcomes st = [] \<or> (\<exists>os. alloc_outcomes st = True # os) \<Longrightarrow>
   negotiate (native_config opts (Some (fresh (heap st)))) = None \<Longrightarrow>
   playback_device_open negotiate (Some opts) cb userdata st
     = Inr (None, st\<lparr>alloc_outcomes := tl (alloc_outcomes st)\<rparr>)"
  by (cases st)
     (auto simp: playback_device_open_def malloc_def alloc_def store_def free_def
        ma_device_init_def filter_fresh)

theorem open_init_failure_releases_witness:
  "playback_device_open refusing_backend
     (Some \<lparr>opt_device_id = None, opt_channels = 2, opt_sr = 48000\<rparr>) (Some 9) (Some 100)
     (initial_world [True]) = Inr (None, initial_world [])"
  using open_init_failure_releases [of "initial_world [True]" refusing_backend
      "\<lparr>opt_device_id = None, opt_channels = 2, opt_sr = 48000\<rparr>" "Some 9" "Some 100"]
  by (simp add: initial_world_def refusing_backend_def)

text \<open>
  C8. Whatever sequence of \<^verbatim>\<open>playback_device_get_config\<close>, \<^verbatim>\<open>playback_device_start\<close> and
  \<^verbatim>\<open>playback_device_stop\<close> calls is made on a live device, with native calls that succeed
  or fail, every call returns and the wrapper at the same address keeps its callback, its
  user data, its configuration and its native device up to the streaming state.
\<close>

theorem control_keeps_device:
  assumes "map_of (heap st) a = Some (DeviceBlock w)"
  shows "\<exists>st'. control (Some a) calls st = Inr st' \<and> same_device a w st st'"
  using assms same_device_refl [OF assms] by (rule control_same_device)

theorem control_keeps_device_witness:
  "\<exists>st'. control (Some 1) [Start True, GetConfig, Stop False, Stop True]
       ((initial_world [])\<lparr>heap := [(1, DeviceBlock
           \<lparr>device = \<lparr>pUserData = Some 1, playback_channels = 2,
                       sampleRate = 48000, dev_state = Open\<rparr>,
            callback = Some 9, rust_userdata = Some 100,
            config = \<lparr>sr = 48000, channels = 2\<rparr>\<rparr>)]\<rparr>) = Inr st'
     \<and> same_device 1
          \<lparr>device = \<lparr>pUserData = Some 1, playback_channels = 2,
                      sampleRate = 48000, dev_state = Open\<rparr>,
           callback = Some 9, rust_userdata = Some 100,
           config = \<lparr>sr = 48000, channels = 2\<rparr>\<rparr>
          ((initial_world [])\<lparr>heap := [(1, DeviceBlock
           \<lparr>device = \<lparr>pUserData = Some 1, playback_channels = 2,
                       sampleRate = 48000, dev_state = Open\<rparr>,
            callback = Some 9, rust_userdata = Some 100,
            config = \<lparr>sr = 48000, channels = 2\<rparr>\<rparr>)]\<rparr>) st'"
proof -
  have "map_of (heap ((initial_world [])\<lparr>heap := [(1, DeviceBlock
           \<lparr>device = \<lparr>pUserData = Some 1, playback_channels = 2,
                       sampleRate = 48000, dev_state = Open\<rparr>,
            callback = Some 9, rust_userdata = Some 100,
            config = \<lparr>sr = 48000, channels = 2\<rparr>\<rparr>)]\<rparr>)) 1
    = Some (DeviceBlock
           \<lparr>device = \<lparr>pUserData = Some 1, playback_channels = 2,
                       sampleRate = 48000, dev_state = Open\<rparr>,
            callback = Some 9, rust_userdata = Some 100,
            config = \<lparr>sr = 48000, channels = 2\<rparr>\<rparr>)"
    by simp
  then show ?thesis by (rule control_keeps_device)
qed




text \<open>
  C5, as the claim states it, fails: destroying the same device twice is not harmless. The
  first call releases the native device and frees the wrapper; the second is handed a
  non-null pointer to freed memory and \<^verbatim>\<open>ma_device_uninit\<close> works through it.
\<close>

theorem destroy_twice_counterexample:
  "playback_device_open accepting_backend
     (Some \<lparr>opt_device_id = None, opt_channels = 2, opt_sr = 48000\<rparr>) (Some 9) (Some 100)
     (initial_world [])
   = Inr (Some 1, ((initial_world [])\<lparr>heap := [(1, DeviceBlock
           \<lparr>device = \<lparr>pUserData = Some 1, playback_channels = 2,
                       sampleRate = 48000, dev_state = Open\<rparr>,
            callback = Some 9, rust_userdata = Some 100,
            config = \<lparr>sr = 48000, channels = 2\<rparr>\<rparr>)]\<rparr>))
   \<and> playback_device_destroy (Some 1) ((initial_world [])\<lparr>heap := [(1, DeviceBlock
           \<lparr>device = \<lparr>pUserData = Some 1, playback_channels = 2,
                       sampleRate = 48000, dev_state = Open\<rparr>,
            callback = Some 9, rust_userdata = Some 100,
            config = \<lparr>sr = 48000, channels = 2\<rparr>\<rparr>)]\<rparr>)
     = Inr ((initial_world [])\<lparr>trace := [DeviceUninit 1 Open]\<rparr>)
   \<and> playback_device_destroy (Some 1) ((initial_world [])\<lparr>trace := [DeviceUninit 1 Open]\<rparr>)
     = Inl UseAfterFree"
  by (simp add: playback_device_open_def accepting_backend_def initial_world_def malloc_def
      alloc_def store_def fresh_def ma_device_init_def playback_device_destroy_def
      ma_device_uninit_def load_device_def free_def)

text \<open>
  C5, amended. \<^verbatim>\<open>playback_device_destroy\<close> on a null handle does nothing. On a live device
  it uninitialises the native device (\<^verbatim>\<open>ma_device_uninit\<close> leaves the embedded device in the
  terminal state and the release is in the trace, with the state the device was in, so a
  started device is released too) and then frees the wrapper: in the state it returns the
  address is no longer live and the trace has grown by exactly that release. The only guard
  is the null check, so a second call on the same handle works through freed memory.
\<close>

theorem destroy_null_or_live:
  "playback_device_destroy None st = Inr st
   \<and> (map_of (heap st) a = Some (DeviceBlock w) \<longrightarrow>
        ma_device_uninit (Some a) st
          = Inr (st\<lparr>heap := (a, DeviceBlock (w\<lparr>device := (device w)\<lparr>dev_state := Destroyed\<rparr>\<rparr>))
                              # filter (\<lambda>kv. fst kv \<noteq> a) (heap st),
                     trace := trace st @ [DeviceUninit a (dev_state (device w))]\<rparr>)
        \<and> playback_device_destroy (Some a) st
          = Inr (st\<lparr>heap := filter (\<lambda>kv. fst kv \<noteq> a) (heap st),
                     trace := trace st @ [DeviceUninit a (dev_state (device w))]\<rparr>)
        \<and> live (st\<lparr>heap := filter (\<lambda>kv. fst kv \<noteq> a) (heap st),
                    trace := trace st @ [DeviceUninit a (dev_state (device w))]\<rparr>) = live st - {a}
        \<and> playback_device_destroy (Some a)
             (st\<lparr>heap := filter (\<lambda>kv. fst kv \<noteq> a) (heap st),
                 trace := trace st @ [DeviceUninit a (dev_state (device w))]\<rparr>)
          = Inl UseAfterFree)"
proof (intro conjI impI)
  show "playback_device_destroy None st = Inr st"
    by (simp add: playback_device_destroy_def)
next
  assume blk: "map_of (heap st) a = Some (DeviceBlock w)"
  then show un: "ma_device_uninit (Some a) st
      = Inr (st\<lparr>heap := (a, DeviceBlock (w\<lparr>device := (device w)\<lparr>dev_state := Destroyed\<rparr>\<rparr>))
                          # filter (\<lambda>kv. fst kv \<noteq> a) (heap st),
                 trace := trace st @ [DeviceUninit a (dev_state (device w))]\<rparr>)"
    by (simp add: ma_device_uninit_def load_device_live store_live)
  show "playback_device_destroy (Some a) st
      = Inr (st\<lparr>heap := filter (\<lambda>kv. fst kv \<noteq> a) (heap st),
                 trace := trace st @ [DeviceUninit a (dev_state (device w))]\<rparr>)"
    by (simp add: playback_device_destroy_def un free_def)
next
  show "live (st\<lparr>heap := filter (\<lambda>kv. fst kv \<noteq> a) (heap st),
                trace := trace st @ [DeviceUninit a (dev_state (device w))]\<rparr>) = live st - {a}"
    by (auto simp: live_def)
next
  show "playback_device_destroy (Some a)
         (st\<lparr>heap := filter (\<lambda>kv. fst kv \<noteq> a) (heap st),
             trace := trace st @ [DeviceUninit a (dev_state (device w))]\<rparr>)
      = Inl UseAfterFree"
    by (simp add: playback_device_destroy_def ma_device_uninit_def load_device_def
        map_of_filter_key)
qed

theorem destroy_null_or_live_witness:
  "playback_device_destroy None ((initial_world [])\<lparr>heap := [(4, DeviceBlock
           \<lparr>device = \<lparr>pUserData = Some 4, playback_channels = 1,
                       sampleRate = 44100, dev_state = Started\<rparr>,
            callback = Some 5, rust_userdata = None,
            config = \<lparr>sr = 44100, channels = 1\<rparr>\<rparr>)]\<rparr>)
     = Inr ((initial_world [])\<lparr>heap := [(4, DeviceBlock
           \<lparr>device = \<lparr>pUserData = Some 4, playback_channels = 1,
                       sampleRate = 44100, dev_state = Started\<rparr>,
            callback = Some 5, rust_userdata = None,
            config = \<lparr>sr = 44100, channels = 1\<rparr>\<rparr>)]\<rparr>)
   \<and> ma_device_uninit (Some 4) ((initial_world [])\<lparr>heap := [(4, DeviceBlock
           \<lparr>device = \<lparr>pUserData = Some 4, playback_channels = 1,
                       sampleRate = 44100, dev_state = Started\<rparr>,
            callback = Some 5, rust_userdata = None,
            config = \<lparr>sr = 44100, channels = 1\<rparr>\<rparr>)]\<rparr>)
     = Inr ((initial_world [])\<lparr>heap := [(4, DeviceBlock
           \<lparr>device = \<lparr>pUserData = Some 4, playback_channels = 1,
                       sampleRate = 44100, dev_state = Destroyed\<rparr>,
            callback = Some 5, rust_userdata = None,
            config = \<lparr>sr = 44100, channels = 1\<rparr>\<rparr>)],
          trace := [DeviceUninit 4 Started]\<rparr>)
   \<and> playback_device_destroy (Some 4) ((initial_world [])\<lparr>heap := [(4, DeviceBlock
           \<lparr>device = \<lparr>pUserData = Some 4, playback_channels = 1,
                       sampleRate = 44100, dev_state = Started\<rparr>,
            callback = Some 5, rust_userdata = None,
            config = \<lparr>sr = 44100, channels = 1\<rparr>\<rparr>)]\<rparr>)
     = Inr ((initial_world [])\<lparr>trace := [DeviceUninit 4 Started]\<rparr>)
   \<and> live ((initial_world [])\<lparr>trace := [DeviceUninit 4 Started]\<rparr>)
       = live ((initial_world [])\<lparr>heap := [(4, DeviceBlock
           \<lparr>device = \<lparr>pUserData = Some 4, playback_channels = 1,
                       sampleRate = 44100, dev_state = Started\<rparr>,
            callback = Some 5, rust_userdata = None,
            config = \<lparr>sr = 44100, channels = 1\<rparr>\<rparr>)]\<rparr>) - {4}
   \<and> playback_device_destroy (Some 4) ((initial_world [])\<lparr>trace := [DeviceUninit 4 Started]\<rparr>)
     = Inl UseAfterFree"
  using destroy_null_or_live [of "((initial_world [])\<lparr>heap := [(4, DeviceBlock
           \<lparr>device = \<lparr>pUserData = Some 4, playback_channels = 1,
                       sampleRate = 44100, dev_state = Started\<rparr>,
            callback = Some 5, rust_userdata = None,
            config = \<lparr>sr = 44100, channels = 1\<rparr>\<rparr>)]\<rparr>)" 4
      "\<lparr>device = \<lparr>pUserData = Some 4, playback_channels = 1,
                       sampleRate = 44100, dev_state = Started\<rparr>,
            callback = Some 5, rust_userdata = None,
            config = \<lparr>sr = 44100, channels = 1\<rparr>\<rparr>"]
  by (simp add: initial_world_def)

end
